theory Spec2Isabelle
  imports Complex_Main
begin

section \<open>Data model\<close>

text \<open>
  A position of the tracking response, \<^verbatim>\<open>{ dt, lat, lon, cog, sog }\<close>. The timestamp
  \<open>dt\<close> is in whole seconds; the other fields are only copied, never computed with.
\<close>

record position =
  dt :: int
  lat :: real
  lon :: real
  cog :: real
  sog :: real

text \<open>The two-element array \<^verbatim>\<open>[t.lat, t.lon]\<close> pushed to a segment.\<close>

type_synonym point = "real \<times> real"

text \<open>
  The one exception the response processing and the rendering can raise: a property
  read or a method call on \<^verbatim>\<open>null\<close> or \<^verbatim>\<open>undefined\<close>.
\<close>

datatype error = TypeError

section \<open>Track segmenter\<close>

text \<open>
  \<^verbatim>\<open>if (segment != null && segment.length > 1) { lines.push(segment); }\<close>,
  which the source runs at every gap and once more after the loop.
\<close>

definition push_segment :: "point list list \<Rightarrow> point list option \<Rightarrow> point list list" where
  "push_segment lines segment =
     (case segment of
        None \<Rightarrow> lines
      | Some sg \<Rightarrow> if length sg > 1 then lines @ [sg] else lines)"

text \<open>
  The body of \<^verbatim>\<open>vessel.track.forEach(t => ...)\<close>, run over the track from left to right
  with the three variables of the enclosing scope passed along: \<open>lines\<close>, \<open>segment\<close>
  (\<open>None\<close> is \<^verbatim>\<open>null\<close>) and \<open>segmentDt\<close>. \<^verbatim>\<open>segment.push(p)\<close> on \<^verbatim>\<open>null\<close> throws.
\<close>

fun track_forEach ::
  "int \<Rightarrow> point list list \<Rightarrow> point list option \<Rightarrow> int \<Rightarrow> position list
     \<Rightarrow> error + (point list list \<times> point list option \<times> int)" where
  "track_forEach segmentMax lines segment segmentDt [] = Inr (lines, segment, segmentDt)"
| "track_forEach segmentMax lines segment segmentDt (t # ts) =
     (let interval = \<bar>dt t - segmentDt\<bar>;
          lines' = (if interval > segmentMax then push_segment lines segment else lines);
          segment' = (if interval > segmentMax then Some [] else segment);
          p = (lat t, lon t)
      in case segment' of
           None \<Rightarrow> Inl TypeError
         | Some sg \<Rightarrow> track_forEach segmentMax lines' (Some (sg @ [p])) (dt t) ts)"

text \<open>
  The segmenter: \<^verbatim>\<open>lines = []\<close>, \<^verbatim>\<open>segment = null\<close>, \<^verbatim>\<open>segmentDt = 0\<close>, the loop, and
  the final close of the open segment.
\<close>

definition segmenter :: "int \<Rightarrow> position list \<Rightarrow> error + point list list" where
  "segmenter segmentMax track =
     (case track_forEach segmentMax [] None 0 track of
        Inl e \<Rightarrow> Inl e
      | Inr (lines, segment, segmentDt) \<Rightarrow> Inr (push_segment lines segment))"

section \<open>Response processing\<close>

text \<open>
  A vessel of the response, \<^verbatim>\<open>{ mmsi, name, info: { name, color }, track }\<close>, with the
  two fields the processing adds: \<open>pos\<close> (\<open>None\<close> is \<^verbatim>\<open>undefined\<close>) and \<open>lines\<close>.
\<close>

record vessel =
  mmsi :: int
  name :: string
  info_name :: string
  info_color :: string
  track :: "position list"
  pos :: "position option"
  lines :: "point list list"

text \<open>
  \<^verbatim>\<open>vessel.track.sort((a, b) => b.dt - a.dt)\<close>: descending by timestamp, and stable, as
  the language requires of \<^verbatim>\<open>Array.prototype.sort\<close>; \<^const>\<open>sort_key\<close> is the stable
  insertion sort, here on the negated timestamp.
\<close>

definition sort_track :: "position list \<Rightarrow> position list" where
  "sort_track tr = sort_key (\<lambda>a. - dt a) tr"

text \<open>
  The body of \<^verbatim>\<open>tracks.forEach((vessel) => ...)\<close>: sort, \<^verbatim>\<open>vessel.pos = vessel.track[0]\<close>
  (\<^verbatim>\<open>undefined\<close> on an empty array), segment, \<^verbatim>\<open>vessel.lines = lines\<close>.
\<close>

definition process_vessel :: "int \<Rightarrow> vessel \<Rightarrow> error + vessel" where
  "process_vessel segmentMax v =
     (let tr = sort_track (track v);
          p = (case tr of [] \<Rightarrow> None | t # _ \<Rightarrow> Some t)
      in case segmenter segmentMax tr of
           Inl e \<Rightarrow> Inl e
         | Inr ls \<Rightarrow> Inr (v\<lparr>track := tr, pos := p, lines := ls\<rparr>))"

fun tracks_forEach :: "int \<Rightarrow> vessel list \<Rightarrow> error + vessel list" where
  "tracks_forEach segmentMax [] = Inr []"
| "tracks_forEach segmentMax (v # vs) =
     (case process_vessel segmentMax v of
        Inl e \<Rightarrow> Inl e
      | Inr v' \<Rightarrow>
          (case tracks_forEach segmentMax vs of
             Inl e \<Rightarrow> Inl e
           | Inr vs' \<Rightarrow> Inr (v' # vs')))"

section \<open>Pollers\<close>

text \<open>
  What the promise of \<^verbatim>\<open>axios.get\<close> settles with: the \<^verbatim>\<open>response.data.tracks\<close> of a
  response, or a rejection (network or parse failure, or a cancelled token).
\<close>

datatype outcome = Resolved "vessel list" | Rejected

text \<open>
  The fields the two track pollers share. \<open>requestRef\<close> is the identity of the
  \<^verbatim>\<open>CancelToken\<close> source the poller holds. Three fields stand for the HTTP client's side:
  \<open>created\<close> counts the token sources made so far (the next one gets this number),
  \<open>cancelled\<close> lists the sources \<^verbatim>\<open>cancel()\<close> was called on, and \<open>pending\<close> lists the
  requests issued and not yet settled, oldest first, each with the token it carries and
  the \<open>segmentMax\<close> its response handler will use.
\<close>

record poller =
  isVisible :: bool
  startupTimer :: "nat option"
  refreshTimer :: "nat option"
  requestRef :: nat
  tracks :: "vessel list"
  created :: nat
  cancelled :: "nat list"
  pending :: "(nat \<times> int) list"

text \<open>\<^verbatim>\<open>requestRef = axios.CancelToken.source()\<close>.\<close>

definition new_source :: "'a poller_scheme \<Rightarrow> 'a poller_scheme" where
  "new_source s = s\<lparr>requestRef := created s, created := created s + 1\<rparr>"

subsection \<open>The vessel tracker (TrackLayer)\<close>

record TrackLayer = poller +
  mounted :: bool
  refreshErrors :: nat

definition maxErrors :: nat where
  "maxErrors = 5"

text \<open>\<^verbatim>\<open>const segmentMax = 3 * 1 * 60\<close>.\<close>

definition TrackLayer_segmentMax :: int where
  "TrackLayer_segmentMax = 3 * 1 * 60"

text \<open>
  \<^verbatim>\<open>refresh\<close>, up to the call of \<^verbatim>\<open>axios.get\<close> with the token of the held source. The
  request's URL depends on the clock only and is left out.
\<close>

definition TrackLayer_refresh :: "TrackLayer \<Rightarrow> TrackLayer" where
  "TrackLayer_refresh s =
     (if \<not> isVisible s then s
      else s\<lparr>pending := pending s @ [(requestRef s, TrackLayer_segmentMax)]\<rparr>)"

text \<open>The \<^verbatim>\<open>.then\<close> handler; an exception in it leaves the component as it was.\<close>

definition TrackLayer_then :: "vessel list \<Rightarrow> TrackLayer \<Rightarrow> error + TrackLayer" where
  "TrackLayer_then tr s =
     (case tracks_forEach TrackLayer_segmentMax tr of
        Inl e \<Rightarrow> Inl e
      | Inr tr' \<Rightarrow> Inr (s\<lparr>tracks := tr', refreshErrors := 0\<rparr>))"

text \<open>The \<^verbatim>\<open>.catch\<close> handler.\<close>

definition TrackLayer_catch :: "TrackLayer \<Rightarrow> TrackLayer" where
  "TrackLayer_catch s =
     (let s1 = s\<lparr>refreshErrors := refreshErrors s + 1\<rparr>
      in if refreshErrors s1 \<ge> maxErrors then s1\<lparr>tracks := []\<rparr> else s1)"

text \<open>
  A pending request \<open>rq\<close> settles: \<^verbatim>\<open>.then\<close> on a response, \<^verbatim>\<open>.catch\<close> on a rejection or
  on an exception of \<^verbatim>\<open>.then\<close>, and \<^verbatim>\<open>.finally\<close>, which replaces the held source. The
  vessel tracker cancels a source in \<^verbatim>\<open>componentWillUnmount\<close> only, so while it is mounted
  no pending request of its carries a cancelled token.
\<close>

definition TrackLayer_settle :: "nat \<times> int \<Rightarrow> outcome \<Rightarrow> TrackLayer \<Rightarrow> TrackLayer" where
  "TrackLayer_settle rq oc s =
     (let s0 = s\<lparr>pending := remove1 rq (pending s)\<rparr>;
          s1 = (case oc of
                  Rejected \<Rightarrow> TrackLayer_catch s0
                | Resolved tr \<Rightarrow>
                    (case TrackLayer_then tr s0 of
                       Inl e \<Rightarrow> TrackLayer_catch s0
                     | Inr s' \<Rightarrow> s'))
      in new_source s1)"

subsection \<open>The history browser (Tracks)\<close>

text \<open>
  \<open>isVisible\<close>, \<open>org\<close>, \<open>timeframe\<close> and \<open>mins\<close> are the properties of the latest render;
  \<open>mins\<close> is \<^verbatim>\<open>"auto"\<close> (\<open>None\<close>) or a number of minutes. \<^verbatim>\<open>refresh\<close> is a function
  of the render that defines it and reads the properties of that render. The timers
  are set up by an effect whose dependencies are \<^verbatim>\<open>[startupMillis, refreshMillis]\<close>, here
  taken constant: it runs once, after the first render, and both timers call the
  \<^verbatim>\<open>refresh\<close> of that render from then on. \<open>timer_isVisible\<close>, \<open>timer_timeframe\<close> and
  \<open>timer_mins\<close> are the properties that \<^verbatim>\<open>refresh\<close> reads.
\<close>

record Tracks = poller +
  org :: string
  timeframe :: string
  mins :: "int option"
  timer_isVisible :: bool
  timer_timeframe :: string
  timer_mins :: "int option"

text \<open>The \<^verbatim>\<open>switch (timeframe)\<close> and \<^verbatim>\<open>minVal = mins === "auto" ? minVal : mins\<close>.\<close>

definition minVal :: "string \<Rightarrow> int option \<Rightarrow> int" where
  "minVal tf m =
     (case m of
        Some n \<Rightarrow> n
      | None \<Rightarrow>
          if tf = ''24H'' then 1
          else if tf = ''7D'' then 1
          else if tf = ''30D'' then 2
          else if tf = ''0M'' then 2
          else if tf = ''1M'' then 2
          else if tf = ''2M'' then 2
          else if tf = ''All'' then 5
          else 1)"

text \<open>
  The \<^verbatim>\<open>refresh\<close> of a render whose properties were \<open>vis\<close>, \<open>tf\<close> and \<open>m\<close>:
  \<^verbatim>\<open>requestRef.current.cancel()\<close>, a new source, and \<^verbatim>\<open>axios.get\<close> with its token; the
  response handler closes over \<^verbatim>\<open>segmentMax = 3 * minVal * 60\<close>. The references
  (\<open>requestRef\<close>, the timers) are shared by all renders.
\<close>

definition Tracks_refresh :: "bool \<Rightarrow> string \<Rightarrow> int option \<Rightarrow> Tracks \<Rightarrow> Tracks" where
  "Tracks_refresh vis tf m s =
     (if \<not> vis then s
      else
        let s1 = s\<lparr>cancelled := cancelled s @ [requestRef s]\<rparr>;
            s2 = new_source s1
        in s2\<lparr>pending := pending s2 @ [(requestRef s2, 3 * minVal tf m * 60)]\<rparr>)"

definition Tracks_then :: "int \<Rightarrow> vessel list \<Rightarrow> Tracks \<Rightarrow> error + Tracks" where
  "Tracks_then segmentMax tr s =
     (case tracks_forEach segmentMax tr of
        Inl e \<Rightarrow> Inl e
      | Inr tr' \<Rightarrow> Inr (s\<lparr>tracks := tr'\<rparr>))"

text \<open>The \<^verbatim>\<open>.catch\<close> handler only logs.\<close>

definition Tracks_catch :: "Tracks \<Rightarrow> Tracks" where
  "Tracks_catch s = s"

text \<open>
  A pending request \<open>rq\<close> settles. The promise of a request whose token has been
  cancelled is rejected, whatever the server answers.
\<close>

definition Tracks_settle :: "nat \<times> int \<Rightarrow> outcome \<Rightarrow> Tracks \<Rightarrow> Tracks" where
  "Tracks_settle rq oc s =
     (let s0 = s\<lparr>pending := remove1 rq (pending s)\<rparr>;
          oc' = (if fst rq \<in> set (cancelled s) then Rejected else oc);
          s1 = (case oc' of
                  Rejected \<Rightarrow> Tracks_catch s0
                | Resolved tr \<Rightarrow>
                    (case Tracks_then (snd rq) tr s0 of
                       Inl e \<Rightarrow> Tracks_catch s0
                     | Inr s' \<Rightarrow> s'))
      in new_source s1)"

text \<open>
  The component after the first render, with properties \<open>vis\<close>, \<open>og\<close>, \<open>tf\<close> and \<open>m\<close>, and
  its two effects: the first starts the soft-start timer, the second calls \<^verbatim>\<open>refresh\<close>.
\<close>

definition Tracks_mount :: "bool \<Rightarrow> string \<Rightarrow> string \<Rightarrow> int option \<Rightarrow> Tracks" where
  "Tracks_mount vis og tf m =
     Tracks_refresh vis tf m
       \<lparr>isVisible = vis, startupTimer = Some 1, refreshTimer = None, requestRef = 0,
        tracks = [], created = 1, cancelled = [], pending = [],
        org = og, timeframe = tf, mins = m,
        timer_isVisible = vis, timer_timeframe = tf, timer_mins = m\<rparr>"

text \<open>The interval's callback \<^verbatim>\<open>() => { refresh(); }\<close>.\<close>

definition Tracks_tick :: "Tracks \<Rightarrow> Tracks" where
  "Tracks_tick s = Tracks_refresh (timer_isVisible s) (timer_timeframe s) (timer_mins s) s"

text \<open>The soft-start timer's callback: \<^verbatim>\<open>refresh()\<close>, then the interval is started.\<close>

definition Tracks_startup :: "Tracks \<Rightarrow> Tracks" where
  "Tracks_startup s = (Tracks_tick s)\<lparr>refreshTimer := Some 2\<rparr>"

text \<open>
  A render with new properties. The effect with dependencies \<^verbatim>\<open>[org, timeframe]\<close> calls
  the \<^verbatim>\<open>refresh\<close> of this render when one of the two has changed.
\<close>

definition Tracks_props :: "bool \<Rightarrow> string \<Rightarrow> string \<Rightarrow> int option \<Rightarrow> Tracks \<Rightarrow> Tracks" where
  "Tracks_props vis og tf m s =
     (let s1 = s\<lparr>isVisible := vis, org := og, timeframe := tf, mins := m\<rparr>
      in if og \<noteq> org s \<or> tf \<noteq> timeframe s then Tracks_refresh vis tf m s1 else s1)"

text \<open>
  What can happen to the mounted component: a render with new properties, the
  soft-start timer firing (once), a tick of the interval (once it runs), and a pending
  request settling.
\<close>

datatype Tracks_event =
  Props bool string string "int option"
| Startup
| Tick
| Settle "nat \<times> int" outcome

fun Tracks_step :: "Tracks_event \<Rightarrow> Tracks \<Rightarrow> Tracks" where
  "Tracks_step (Props vis og tf m) s = Tracks_props vis og tf m s"
| "Tracks_step Startup s = (if refreshTimer s = None then Tracks_startup s else s)"
| "Tracks_step Tick s = (if refreshTimer s = None then s else Tracks_tick s)"
| "Tracks_step (Settle rq oc) s = (if rq \<in> set (pending s) then Tracks_settle rq oc s else s)"

text \<open>
  Every token source in use was created before the next one: the held one, the
  cancelled ones and those of the pending requests.
\<close>

definition sources_created :: "'a poller_scheme \<Rightarrow> bool" where
  "sources_created s =
     (requestRef s < created s
      \<and> list_all (\<lambda>c. c < created s) (cancelled s)
      \<and> list_all (\<lambda>rq. fst rq < created s) (pending s))"

subsection \<open>The chart pollers (PressureChart, WindChart)\<close>

text \<open>
  Of a chart poller only the number of requests issued and not yet settled is kept.
  Both \<^verbatim>\<open>refresh\<close> functions call \<^verbatim>\<open>axios.get(url)\<close> with no cancel token and no guard.
\<close>

record chart =
  chart_pending :: nat

definition PressureChart_refresh :: "chart \<Rightarrow> chart" where
  "PressureChart_refresh s = s\<lparr>chart_pending := chart_pending s + 1\<rparr>"

definition WindChart_refresh :: "chart \<Rightarrow> chart" where
  "WindChart_refresh s = s\<lparr>chart_pending := chart_pending s + 1\<rparr>"

text \<open>
  The outcomes that end in the \<^verbatim>\<open>.catch\<close> handler: a rejection, or a response whose
  processing in \<^verbatim>\<open>.then\<close> throws.
\<close>

definition poll_failed :: "int \<Rightarrow> outcome \<Rightarrow> bool" where
  "poll_failed segmentMax oc =
     (case oc of
        Rejected \<Rightarrow> True
      | Resolved tr \<Rightarrow> (case tracks_forEach segmentMax tr of Inl e \<Rightarrow> True | Inr tr' \<Rightarrow> False))"

text \<open>The requests still under way: pending, and their token not cancelled.\<close>

definition outstanding :: "'a poller_scheme \<Rightarrow> (nat \<times> int) list" where
  "outstanding s = filter (\<lambda>rq. fst rq \<notin> set (cancelled s)) (pending s)"

section \<open>Rendering\<close>

text \<open>
  What \<^verbatim>\<open>render\<close> makes of one vessel: a polyline per segment, a circle marker per
  position, and the head marker at \<^verbatim>\<open>[vessel.pos.lat, vessel.pos.lon]\<close>, a property read
  that throws when \<^verbatim>\<open>vessel.pos\<close> is \<^verbatim>\<open>undefined\<close>.
\<close>

record layer_group =
  polylines :: "point list list"
  circle_markers :: "position list"
  marker :: point

definition render_vessel :: "vessel \<Rightarrow> error + layer_group" where
  "render_vessel v =
     (case pos v of
        None \<Rightarrow> Inl TypeError
      | Some p \<Rightarrow> Inr \<lparr>polylines = lines v, circle_markers = track v, marker = (lat p, lon p)\<rparr>)"

fun render :: "vessel list \<Rightarrow> error + layer_group list" where
  "render [] = Inr []"
| "render (v # vs) =
     (case render_vessel v of
        Inl e \<Rightarrow> Inl e
      | Inr g \<Rightarrow> (case render vs of Inl e \<Rightarrow> Inl e | Inr gs \<Rightarrow> Inr (g # gs)))"

section \<open>The segmentation as the specification words it\<close>

text \<open>The \<open>(lat, lon)\<close> projection of a position.\<close>

definition latlon :: "position \<Rightarrow> point" where
  "latlon t = (lat t, lon t)"

text \<open>
  Following the specification, not the code: the positions split into contiguous runs
  "wherever the gap between consecutive points exceeds a threshold". The first position
  opens a run; each further one opens a new run when its timestamp is more than the
  threshold away from its predecessor's, and continues the run otherwise.
\<close>

fun spec_runs :: "int \<Rightarrow> position list \<Rightarrow> position list list" where
  "spec_runs threshold [] = []"
| "spec_runs threshold [t] = [[t]]"
| "spec_runs threshold (t1 # t2 # ts) =
     (if \<bar>dt t1 - dt t2\<bar> > threshold then [t1] # spec_runs threshold (t2 # ts)
      else (case spec_runs threshold (t2 # ts) of
              [] \<Rightarrow> [[t1]]
            | r # rs \<Rightarrow> (t1 # r) # rs))"

text \<open>"The input minus any single-point runs."\<close>

definition drop_single_runs :: "'a list list \<Rightarrow> 'a list list" where
  "drop_single_runs rs = filter (\<lambda>r. length r \<noteq> 1) rs"

section \<open>Every output segment has more than one point\<close>

lemma push_segment_long:
  "\<forall>sg \<in> set ls. 1 < length sg \<Longrightarrow> \<forall>sg \<in> set (push_segment ls s). 1 < length sg"
  by (auto simp: push_segment_def split: option.splits)

lemma track_forEach_long:
  "track_forEach m ls s d ts = Inr (ls', s', d') \<Longrightarrow> \<forall>sg \<in> set ls. 1 < length sg
     \<Longrightarrow> \<forall>sg \<in> set ls'. 1 < length sg"
proof (induction ts arbitrary: ls s d)
  case Nil
  then show ?case by simp
next
  case (Cons t ts)
  show ?case
  proof (cases "\<bar>dt t - d\<bar> > m")
    case True
    with Cons.prems(1)
    have "track_forEach m (push_segment ls s) (Some [(lat t, lon t)]) (dt t) ts = Inr (ls', s', d')"
      by simp
    moreover have "\<forall>sg \<in> set (push_segment ls s). 1 < length sg"
      using Cons.prems(2) by (rule push_segment_long)
    ultimately show ?thesis by (rule Cons.IH)
  next
    case False
    with Cons.prems(1) obtain sg where "s = Some sg"
      and "track_forEach m ls (Some (sg @ [(lat t, lon t)])) (dt t) ts = Inr (ls', s', d')"
      by (cases s) auto
    then show ?thesis using Cons.IH Cons.prems(2) by blast
  qed
qed

text \<open>
  C1. Whatever the track and the threshold, every segment of the list the segmenter
  returns has more than one point.
\<close>

theorem segmenter_segments_long:
  assumes "segmenter segmentMax ts = Inr ls"
  shows "\<forall>sg \<in> set ls. 1 < length sg"
proof -
  from assms obtain ls0 s0 d0 where run: "track_forEach segmentMax [] None 0 ts = Inr (ls0, s0, d0)"
    and out: "ls = push_segment ls0 s0"
    by (auto simp: segmenter_def split: sum.splits)
  from run have "\<forall>sg \<in> set ls0. 1 < length sg"
    by (rule track_forEach_long) simp
  then show ?thesis unfolding out by (rule push_segment_long)
qed

text \<open>The spec's example track, already sorted, as an instance.\<close>

theorem segmenter_segments_long_witness:
  "segmenter 180
     [\<lparr>dt = 5000, lat = 3, lon = 30, cog = 0, sog = 1\<rparr>,
      \<lparr>dt = 190, lat = 2, lon = 20, cog = 0, sog = 1\<rparr>,
      \<lparr>dt = 100, lat = 1, lon = 10, cog = 0, sog = 1\<rparr>] = Inr [[(2, 20), (1, 10)]]
   \<and> 1 < length [(2, 20), (1, 10) :: point]"
proof -
  have run: "segmenter 180
     [\<lparr>dt = 5000, lat = 3, lon = 30, cog = 0, sog = 1\<rparr>,
      \<lparr>dt = 190, lat = 2, lon = 20, cog = 0, sog = 1\<rparr>,
      \<lparr>dt = 100, lat = 1, lon = 10, cog = 0, sog = 1\<rparr>] = Inr [[(2, 20), (1, 10)]]"
    by (simp add: segmenter_def push_segment_def)
  from run segmenter_segments_long [OF run] show ?thesis by simp
qed

section \<open>The segmenter computes the specification's runs\<close>

lemma spec_runs_Cons: "\<exists>r rs. spec_runs th (t # ts) = (t # r) # rs"
  by (induction ts arbitrary: t) (auto split: list.splits)

lemma spec_runs_concat: "concat (spec_runs th ts) = ts"
proof (induction th ts rule: spec_runs.induct)
  case (3 th t1 t2 ts)
  obtain r rs where "spec_runs th (t2 # ts) = (t2 # r) # rs"
    using spec_runs_Cons by blast
  with 3 show ?case by auto
qed simp_all

lemma spec_runs_nonempty: "[] \<notin> set (spec_runs th ts)"
proof (induction th ts rule: spec_runs.induct)
  case (3 th t1 t2 ts)
  obtain r rs where "spec_runs th (t2 # ts) = (t2 # r) # rs"
    using spec_runs_Cons by blast
  with 3 show ?case by auto
qed simp_all

text \<open>
  The loop entered with an open segment whose last point is \<open>t\<close>: it never throws, and
  what it leaves, once closed, is the lines so far followed by the runs of \<open>t # ts\<close>
  with more than one point, the first run prefixed by the open segment.
\<close>

lemma track_forEach_open:
  "\<exists>ls' s' d'. track_forEach m ls (Some (pre @ [latlon t])) (dt t) ts = Inr (ls', s', d') \<and>
     push_segment ls' s' = ls @ filter (\<lambda>r. 1 < length r)
        (case map (map latlon) (spec_runs m (t # ts)) of r # rs \<Rightarrow> (pre @ r) # rs | [] \<Rightarrow> [])"
proof (induction ts arbitrary: ls pre t)
  case Nil
  show ?case by (simp add: push_segment_def)
next
  case (Cons u ts)
  obtain r rs where R: "spec_runs m (u # ts) = (u # r) # rs"
    using spec_runs_Cons by blast
  show ?case
  proof (cases "\<bar>dt u - dt t\<bar> > m")
    case True
    from Cons.IH[of "push_segment ls (Some (pre @ [latlon t]))" "[]" u]
    show ?thesis using True R
      by (auto simp: push_segment_def latlon_def abs_minus_commute)
  next
    case False
    from Cons.IH[of ls "pre @ [latlon t]" u]
    show ?thesis using False R
      by (auto simp: latlon_def abs_minus_commute)
  qed
qed

lemma segmenter_spec_runs:
  "segmenter m ts =
     (case ts of
        [] \<Rightarrow> Inr []
      | t # _ \<Rightarrow>
          if \<bar>dt t - 0\<bar> > m
          then Inr (map (map latlon) (filter (\<lambda>r. 1 < length r) (spec_runs m ts)))
          else Inl TypeError)"
proof (cases ts)
  case Nil
  then show ?thesis by (simp add: segmenter_def push_segment_def)
next
  case (Cons t ts')
  show ?thesis
  proof (cases "\<bar>dt t\<bar> > m")
    case False
    with Cons show ?thesis by (simp add: segmenter_def)
  next
    case True
    obtain r rs where R: "spec_runs m (t # ts') = (t # r) # rs"
      using spec_runs_Cons by blast
    from track_forEach_open[of m "[]" "[]" t ts']
    obtain ls' s' d' where run: "track_forEach m [] (Some [latlon t]) (dt t) ts' = Inr (ls', s', d')"
      and out: "push_segment ls' s' = filter (\<lambda>r. 1 < length r) (map (map latlon) (spec_runs m (t # ts')))"
      using R by auto
    have "filter (\<lambda>r. 1 < length r) (map (map latlon) (spec_runs m (t # ts')))
            = map (map latlon) (filter (\<lambda>r. 1 < length r) (spec_runs m (t # ts')))"
      by (simp add: filter_map comp_def)
    with run out True Cons show ?thesis
      by (simp add: segmenter_def push_segment_def latlon_def)
  qed
qed

lemma spec_runs_within:
  "r \<in> set (spec_runs th ts) \<Longrightarrow> successively (\<lambda>a b. \<bar>dt a - dt b\<bar> \<le> th) r"
proof (induction th ts arbitrary: r rule: spec_runs.induct)
  case (3 th t1 t2 ts)
  obtain r' rs where R: "spec_runs th (t2 # ts) = (t2 # r') # rs"
    using spec_runs_Cons by blast
  show ?case
  proof (cases "\<bar>dt t1 - dt t2\<bar> > th")
    case True
    with 3 show ?thesis by auto
  next
    case False
    with 3 R show ?thesis by auto
  qed
qed simp_all

lemma spec_runs_between:
  "successively (\<lambda>r1 r2. \<bar>dt (last r1) - dt (hd r2)\<bar> > th) (spec_runs th ts)"
proof (induction th ts rule: spec_runs.induct)
  case (3 th t1 t2 ts)
  obtain r' rs where R: "spec_runs th (t2 # ts) = (t2 # r') # rs"
    using spec_runs_Cons by blast
  show ?case
  proof (cases "\<bar>dt t1 - dt t2\<bar> > th")
    case True
    with 3 R show ?thesis by auto
  next
    case False
    with 3 R show ?thesis by (cases rs) auto
  qed
qed simp_all

lemma segmenter_Inr_runs:
  assumes "segmenter m ts = Inr ls"
  shows "ls = map (map latlon) (filter (\<lambda>r. 1 < length r) (spec_runs m ts))"
  using assms unfolding segmenter_spec_runs
  by (auto split: list.splits if_splits)

text \<open>The specification's example track, sorted, on the vessel tracker's threshold.\<close>

lemma example_run:
  "segmenter 180
     [\<lparr>dt = 5000, lat = 3, lon = 30, cog = 0, sog = 1\<rparr>,
      \<lparr>dt = 190, lat = 2, lon = 20, cog = 0, sog = 1\<rparr>,
      \<lparr>dt = 100, lat = 1, lon = 10, cog = 0, sog = 1\<rparr>] = Inr [[(2, 20), (1, 10)]]"
  by (simp add: segmenter_def push_segment_def)

text \<open>
  C2. The output segments are the runs of more than one point of a split of the input
  into consecutive non-empty runs, where two neighbours inside a run are at most the
  threshold apart in time and the last position of a run is more than the threshold away
  from the first position of the next run.
\<close>

theorem segmenter_gaps:
  assumes "segmenter threshold ts = Inr ls"
  shows "\<exists>rs. concat rs = ts \<and> [] \<notin> set rs
           \<and> ls = map (map latlon) (filter (\<lambda>r. 1 < length r) rs)
           \<and> (\<forall>r \<in> set rs. \<forall>i. Suc i < length r \<longrightarrow> \<bar>dt (r ! i) - dt (r ! Suc i)\<bar> \<le> threshold)
           \<and> (\<forall>j. Suc j < length rs \<longrightarrow>
                  \<bar>dt (last (rs ! j)) - dt (hd (rs ! Suc j))\<bar> > threshold)"
proof (intro exI conjI)
  show "concat (spec_runs threshold ts) = ts" by (rule spec_runs_concat)
  show "[] \<notin> set (spec_runs threshold ts)" by (rule spec_runs_nonempty)
  show "ls = map (map latlon) (filter (\<lambda>r. 1 < length r) (spec_runs threshold ts))"
    using assms by (rule segmenter_Inr_runs)
  show "\<forall>r \<in> set (spec_runs threshold ts). \<forall>i. Suc i < length r \<longrightarrow>
          \<bar>dt (r ! i) - dt (r ! Suc i)\<bar> \<le> threshold"
    using spec_runs_within by (simp add: successively_conv_nth)
  show "\<forall>j. Suc j < length (spec_runs threshold ts) \<longrightarrow>
          \<bar>dt (last (spec_runs threshold ts ! j)) - dt (hd (spec_runs threshold ts ! Suc j))\<bar> > threshold"
    using spec_runs_between[of threshold ts] by (simp add: successively_conv_nth)
qed

theorem segmenter_gaps_witness:
  "segmenter 180
     [\<lparr>dt = 5000, lat = 3, lon = 30, cog = 0, sog = 1\<rparr>,
      \<lparr>dt = 190, lat = 2, lon = 20, cog = 0, sog = 1\<rparr>,
      \<lparr>dt = 100, lat = 1, lon = 10, cog = 0, sog = 1\<rparr>] = Inr [[(2, 20), (1, 10)]]
   \<and> (\<exists>rs. concat rs =
          [\<lparr>dt = 5000, lat = 3, lon = 30, cog = 0, sog = 1\<rparr>,
           \<lparr>dt = 190, lat = 2, lon = 20, cog = 0, sog = 1\<rparr>,
           \<lparr>dt = 100, lat = 1, lon = 10, cog = 0, sog = 1\<rparr>]
        \<and> [] \<notin> set rs
        \<and> [[(2, 20), (1, 10)]] = map (map latlon) (filter (\<lambda>r. 1 < length r) rs)
        \<and> (\<forall>r \<in> set rs. \<forall>i. Suc i < length r \<longrightarrow> \<bar>dt (r ! i) - dt (r ! Suc i)\<bar> \<le> 180)
        \<and> (\<forall>j. Suc j < length rs \<longrightarrow> \<bar>dt (last (rs ! j)) - dt (hd (rs ! Suc j))\<bar> > 180))"
  using example_run segmenter_gaps [OF example_run] by blast

text \<open>
  C3. The points of the output segments, concatenated in order, are the projections of
  the input with the positions of the single-point runs taken out.
\<close>

theorem segmenter_reconstructs:
  assumes "segmenter threshold ts = Inr ls"
  shows "concat ls = map latlon (concat (drop_single_runs (spec_runs threshold ts)))"
proof -
  have "filter (\<lambda>r. 1 < length r) (spec_runs threshold ts) = drop_single_runs (spec_runs threshold ts)"
    unfolding drop_single_runs_def
  proof (rule filter_cong[OF refl])
    fix r assume "r \<in> set (spec_runs threshold ts)"
    with spec_runs_nonempty[of threshold ts] have "r \<noteq> []" by auto
    then show "(1 < length r) = (length r \<noteq> 1)" by (cases r) auto
  qed
  with segmenter_Inr_runs[OF assms] show ?thesis by (simp add: map_concat)
qed

theorem segmenter_reconstructs_witness:
  "segmenter 180
     [\<lparr>dt = 5000, lat = 3, lon = 30, cog = 0, sog = 1\<rparr>,
      \<lparr>dt = 190, lat = 2, lon = 20, cog = 0, sog = 1\<rparr>,
      \<lparr>dt = 100, lat = 1, lon = 10, cog = 0, sog = 1\<rparr>] = Inr [[(2, 20), (1, 10)]]
   \<and> concat [[(2, 20), (1, 10) :: point]] = [(2, 20), (1, 10)]
   \<and> map latlon (concat (drop_single_runs (spec_runs 180
        [\<lparr>dt = 5000, lat = 3, lon = 30, cog = 0, sog = 1\<rparr>,
         \<lparr>dt = 190, lat = 2, lon = 20, cog = 0, sog = 1\<rparr>,
         \<lparr>dt = 100, lat = 1, lon = 10, cog = 0, sog = 1\<rparr>]))) = [(2, 20), (1, 10)]"
  using example_run segmenter_reconstructs [OF example_run] by simp

section \<open>The first point and the initial \<open>segmentDt = 0\<close>\<close>

text \<open>
  C5. When the first position's timestamp exceeds the threshold, the first iteration,
  entered with \<open>segment = null\<close> and \<open>segmentDt = 0\<close>, takes the gap branch: after it the
  open segment is a fresh one holding that one point, nothing has been pushed to the
  lines, and \<open>segmentDt\<close> is the point's timestamp. The rest of the loop runs from that
  state, and the segmenter returns the lines of the whole track, not the exception of a
  push on \<^verbatim>\<open>null\<close>.
\<close>

theorem first_point_opens_segment:
  assumes "dt t > segmentMax"
  shows "track_forEach segmentMax [] None 0 [t] = Inr ([], Some [(lat t, lon t)], dt t)
       \<and> track_forEach segmentMax [] None 0 (t # ts)
           = track_forEach segmentMax [] (Some [(lat t, lon t)]) (dt t) ts
       \<and> segmenter segmentMax (t # ts)
           = Inr (map (map latlon) (filter (\<lambda>r. 1 < length r) (spec_runs segmentMax (t # ts))))"
proof (intro conjI)
  from assms have gap: "\<bar>dt t - 0\<bar> > segmentMax" by simp
  then show "track_forEach segmentMax [] None 0 [t] = Inr ([], Some [(lat t, lon t)], dt t)"
    by (simp add: push_segment_def)
  from gap show "track_forEach segmentMax [] None 0 (t # ts)
           = track_forEach segmentMax [] (Some [(lat t, lon t)]) (dt t) ts"
    by (simp add: push_segment_def)
  from gap show "segmenter segmentMax (t # ts)
           = Inr (map (map latlon) (filter (\<lambda>r. 1 < length r) (spec_runs segmentMax (t # ts))))"
    by (simp add: segmenter_spec_runs)
qed

theorem first_point_opens_segment_witness:
  "dt \<lparr>dt = 5000, lat = 3, lon = 30, cog = 0, sog = 1\<rparr> > 180
   \<and> track_forEach 180 [] None 0 [\<lparr>dt = 5000, lat = 3, lon = 30, cog = 0, sog = 1\<rparr>]
      = Inr ([], Some [(3, 30)], 5000)
   \<and> track_forEach 180 [] None 0
        [\<lparr>dt = 5000, lat = 3, lon = 30, cog = 0, sog = 1\<rparr>,
         \<lparr>dt = 4900, lat = 2, lon = 20, cog = 0, sog = 1\<rparr>]
      = Inr ([], Some [(3, 30), (2, 20)], 4900)
   \<and> segmenter 180
        [\<lparr>dt = 5000, lat = 3, lon = 30, cog = 0, sog = 1\<rparr>,
         \<lparr>dt = 4900, lat = 2, lon = 20, cog = 0, sog = 1\<rparr>] = Inr [[(3, 30), (2, 20)]]"
proof -
  have h: "dt \<lparr>dt = 5000, lat = 3, lon = 30, cog = 0, sog = 1\<rparr> > 180" by simp
  from first_point_opens_segment [OF h, of "[\<lparr>dt = 4900, lat = 2, lon = 20, cog = 0, sog = 1\<rparr>]"] h
  show ?thesis by (simp add: latlon_def)
qed

text \<open>
  Otherwise, with the first timestamp within the threshold of 0, no segment has been
  allocated when the point is pushed, and the segmenter throws.
\<close>

lemma first_point_near_epoch_throws:
  "\<bar>dt t\<bar> \<le> segmentMax \<Longrightarrow> segmenter segmentMax (t # ts) = Inl TypeError"
  by (simp add: segmenter_spec_runs)

section \<open>The specification's example\<close>

text \<open>
  The claim C4 as stated, with the segment in the order \<open>[100, 190]\<close>, fails: the sort is
  descending, so the position of timestamp 190 comes first.
\<close>

theorem example_order_counterexample:
  "segmenter 180 (sort_track
     [\<lparr>dt = 100, lat = 1, lon = 10, cog = 0, sog = 1\<rparr>,
      \<lparr>dt = 190, lat = 2, lon = 20, cog = 0, sog = 1\<rparr>,
      \<lparr>dt = 5000, lat = 3, lon = 30, cog = 0, sog = 1\<rparr>]) \<noteq> Inr [[(1, 10), (2, 20)]]"
  by (simp add: sort_track_def segmenter_def push_segment_def)

text \<open>
  C4, amended. For positions with timestamps 100, 190 and 5000 and the threshold 180, the
  descending sort followed by the segmentation gives exactly one segment, holding the point
  of timestamp 190 and then the point of timestamp 100; the position of timestamp 5000 is
  a single-point run and is dropped.
\<close>

theorem example_pipeline:
  "segmenter 180 (sort_track
     [\<lparr>dt = 100, lat = la1, lon = lo1, cog = c1, sog = s1\<rparr>,
      \<lparr>dt = 190, lat = la2, lon = lo2, cog = c2, sog = s2\<rparr>,
      \<lparr>dt = 5000, lat = la3, lon = lo3, cog = c3, sog = s3\<rparr>])
   = Inr [[(la2, lo2), (la1, lo1)]]"
  by (simp add: sort_track_def segmenter_def push_segment_def)

section \<open>Poll failures\<close>

text \<open>
  C6. In the vessel tracker, a poll that fails adds one to \<open>refreshErrors\<close> and a poll that
  succeeds sets it to 0; on a failure the displayed tracks stay as they are while the new
  count is below \<open>maxErrors\<close>, which is 5, and become the empty list once it is reached.
\<close>

theorem TrackLayer_error_counter:
  "refreshErrors (TrackLayer_settle rq oc s)
     = (if poll_failed TrackLayer_segmentMax oc then refreshErrors s + 1 else 0)
   \<and> (poll_failed TrackLayer_segmentMax oc \<longrightarrow>
        tracks (TrackLayer_settle rq oc s)
          = (if refreshErrors s + 1 < maxErrors then tracks s else []))
   \<and> maxErrors = 5"
  by (simp add: TrackLayer_settle_def TrackLayer_then_def TrackLayer_catch_def new_source_def
      maxErrors_def poll_failed_def Let_def split: outcome.splits sum.splits)

theorem TrackLayer_error_counter_witness:
  "poll_failed TrackLayer_segmentMax Rejected
   \<and> refreshErrors (TrackLayer_settle (0, 180) Rejected
        \<lparr>isVisible = True, startupTimer = Some 1, refreshTimer = Some 2, requestRef = 0,
         tracks = [\<lparr>mmsi = 7, name = ''a'', info_name = ''a'', info_color = ''red'',
                    track = [], pos = None, lines = []\<rparr>],
         created = 1, cancelled = [], pending = [(0, 180)], mounted = True, refreshErrors = 4\<rparr>) = 5
   \<and> tracks (TrackLayer_settle (0, 180) Rejected
        \<lparr>isVisible = True, startupTimer = Some 1, refreshTimer = Some 2, requestRef = 0,
         tracks = [\<lparr>mmsi = 7, name = ''a'', info_name = ''a'', info_color = ''red'',
                    track = [], pos = None, lines = []\<rparr>],
         created = 1, cancelled = [], pending = [(0, 180)], mounted = True, refreshErrors = 4\<rparr>) = []"
proof -
  have h: "poll_failed TrackLayer_segmentMax Rejected" by (simp add: poll_failed_def)
  from h TrackLayer_error_counter [of "(0, 180)" Rejected
      "\<lparr>isVisible = True, startupTimer = Some 1, refreshTimer = Some 2, requestRef = 0,
         tracks = [\<lparr>mmsi = 7, name = ''a'', info_name = ''a'', info_color = ''red'',
                    track = [], pos = None, lines = []\<rparr>],
         created = 1, cancelled = [], pending = [(0, 180)], mounted = True, refreshErrors = 4\<rparr>"]
  show ?thesis by simp
qed

text \<open>
  Over a run of failures: the count grows by one each time, and from a count of 0 the
  tracks survive the first four failures and are cleared by the fifth.
\<close>

lemma TrackLayer_consecutive_failures:
  "refreshErrors (((\<lambda>s. TrackLayer_settle rq Rejected s) ^^ n) s) = refreshErrors s + n"
  "refreshErrors s = 0 \<Longrightarrow>
     tracks (((\<lambda>s. TrackLayer_settle rq Rejected s) ^^ n) s) = (if n < maxErrors then tracks s else [])"
proof -
  show c: "refreshErrors (((\<lambda>s. TrackLayer_settle rq Rejected s) ^^ n) s) = refreshErrors s + n" for n
    by (induction n)
      (simp_all add: TrackLayer_settle_def TrackLayer_catch_def new_source_def Let_def)
  show "refreshErrors s = 0 \<Longrightarrow>
     tracks (((\<lambda>s. TrackLayer_settle rq Rejected s) ^^ n) s) = (if n < maxErrors then tracks s else [])"
  proof (induction n)
    case 0
    then show ?case by (simp add: maxErrors_def)
  next
    case (Suc n)
    then show ?case using c[of n]
      by (simp add: TrackLayer_settle_def TrackLayer_catch_def new_source_def Let_def)
  qed
qed

text \<open>
  C7. In the history browser, however many polls fail in a row, the displayed tracks are
  what they were: the \<^verbatim>\<open>.catch\<close> handler only logs, and the component keeps no count.
\<close>

theorem Tracks_failures_keep_tracks:
  assumes "\<forall>ev \<in> set evs. poll_failed (snd (fst ev)) (snd ev)"
  shows "tracks (fold (\<lambda>ev. Tracks_settle (fst ev) (snd ev)) evs s) = tracks s"
  using assms
proof (induction evs arbitrary: s)
  case Nil
  show ?case by simp
next
  case (Cons ev evs)
  from Cons.prems have "poll_failed (snd (fst ev)) (snd ev)" by simp
  then have "tracks (Tracks_settle (fst ev) (snd ev) s) = tracks s"
    by (simp add: Tracks_settle_def Tracks_then_def Tracks_catch_def new_source_def
        poll_failed_def Let_def split: outcome.splits sum.splits)
  moreover from Cons.prems have "\<forall>ev \<in> set evs. poll_failed (snd (fst ev)) (snd ev)" by simp
  ultimately show ?case using Cons.IH by simp
qed

theorem Tracks_failures_keep_tracks_witness:
  "poll_failed 180 Rejected
   \<and> tracks (fold (\<lambda>ev. Tracks_settle (fst ev) (snd ev)) [((1, 180), Rejected), ((2, 180), Rejected)]
        \<lparr>isVisible = True, startupTimer = Some 1, refreshTimer = Some 2, requestRef = 2,
         tracks = [\<lparr>mmsi = 7, name = ''a'', info_name = ''a'', info_color = ''red'',
                    track = [], pos = None, lines = []\<rparr>],
         created = 3, cancelled = [0, 1], pending = [(1, 180), (2, 180)],
         org = ''QF2'', timeframe = ''12H'', mins = None,
         timer_isVisible = True, timer_timeframe = ''12H'', timer_mins = None\<rparr>)
     = [\<lparr>mmsi = 7, name = ''a'', info_name = ''a'', info_color = ''red'',
         track = [], pos = None, lines = []\<rparr>]"
proof -
  have h: "\<forall>ev \<in> set [((1, 180), Rejected), ((2::nat, 180::int), Rejected)]. poll_failed (snd (fst ev)) (snd ev)"
    by (simp add: poll_failed_def)
  have "poll_failed 180 Rejected" by (simp add: poll_failed_def)
  with Tracks_failures_keep_tracks [OF h, of
      "\<lparr>isVisible = True, startupTimer = Some 1, refreshTimer = Some 2, requestRef = 2,
         tracks = [\<lparr>mmsi = 7, name = ''a'', info_name = ''a'', info_color = ''red'',
                    track = [], pos = None, lines = []\<rparr>],
         created = 3, cancelled = [0, 1], pending = [(1, 180), (2, 180)],
         org = ''QF2'', timeframe = ''12H'', mins = None,
         timer_isVisible = True, timer_timeframe = ''12H'', timer_mins = None\<rparr>"]
  show ?thesis by simp
qed

section \<open>Suspension while the page is not visible\<close>

text \<open>
  The guard itself: the vessel tracker reads \<^verbatim>\<open>this.props.isVisible\<close> when \<^verbatim>\<open>refresh\<close> is
  called, and with it false the component is left exactly as it was (no request joins
  the pending ones; tracks, error count and timer handles are the same). In the history
  browser the same holds of the \<^verbatim>\<open>refresh\<close> of a render whose \<open>isVisible\<close> was false.
\<close>

lemma refresh_guard:
  "\<not> isVisible s \<Longrightarrow> TrackLayer_refresh s = s"
  "Tracks_refresh False tf m h = h"
  by (simp_all add: TrackLayer_refresh_def Tracks_refresh_def)

text \<open>With \<open>isVisible\<close> true, a refresh does issue a request.\<close>

lemma refresh_visible_issues_request:
  "isVisible s \<Longrightarrow> length (pending (TrackLayer_refresh s)) = length (pending s) + 1"
  "length (pending (Tracks_refresh True tf m h)) = length (pending h) + 1"
  by (simp_all add: TrackLayer_refresh_def Tracks_refresh_def new_source_def Let_def)

text \<open>The component once mounted visible, and after the events that lead to the hidden page.\<close>

lemma mount_visible:
  "Tracks_mount True ''QF2'' ''12H'' None =
     \<lparr>isVisible = True, startupTimer = Some 1, refreshTimer = None, requestRef = 1,
      tracks = [], created = 2, cancelled = [0], pending = [(1, 180)],
      org = ''QF2'', timeframe = ''12H'', mins = None,
      timer_isVisible = True, timer_timeframe = ''12H'', timer_mins = None\<rparr>"
  by (simp add: Tracks_mount_def Tracks_refresh_def new_source_def minVal_def Let_def)

lemma hidden_state:
  "fold Tracks_step
      [Settle (1, 180) (Resolved []), Startup, Settle (3, 180) (Resolved []),
       Props False ''QF2'' ''12H'' None]
      (Tracks_mount True ''QF2'' ''12H'' None) =
     \<lparr>isVisible = False, startupTimer = Some 1, refreshTimer = Some 2, requestRef = 4,
      tracks = [], created = 5, cancelled = [0, 2], pending = [],
      org = ''QF2'', timeframe = ''12H'', mins = None,
      timer_isVisible = True, timer_timeframe = ''12H'', timer_mins = None\<rparr>"
  unfolding mount_visible
  by (simp add: Tracks_refresh_def Tracks_settle_def Tracks_then_def
      Tracks_startup_def Tracks_tick_def Tracks_props_def new_source_def minVal_def Let_def)

lemma hidden_tick:
  "fold Tracks_step
      [Settle (1, 180) (Resolved []), Startup, Settle (3, 180) (Resolved []),
       Props False ''QF2'' ''12H'' None, Tick]
      (Tracks_mount True ''QF2'' ''12H'' None) =
     \<lparr>isVisible = False, startupTimer = Some 1, refreshTimer = Some 2, requestRef = 5,
      tracks = [], created = 6, cancelled = [0, 2, 4], pending = [(5, 180)],
      org = ''QF2'', timeframe = ''12H'', mins = None,
      timer_isVisible = True, timer_timeframe = ''12H'', timer_mins = None\<rparr>"
proof -
  have "fold Tracks_step
      [Settle (1, 180) (Resolved []), Startup, Settle (3, 180) (Resolved []),
       Props False ''QF2'' ''12H'' None, Tick]
      (Tracks_mount True ''QF2'' ''12H'' None)
    = Tracks_step Tick (fold Tracks_step
      [Settle (1, 180) (Resolved []), Startup, Settle (3, 180) (Resolved []),
       Props False ''QF2'' ''12H'' None]
      (Tracks_mount True ''QF2'' ''12H'' None))"
    using fold_append [of Tracks_step
        "[Settle (1, 180) (Resolved []), Startup, Settle (3, 180) (Resolved []),
          Props False ''QF2'' ''12H'' None]" "[Tick]"]
    by simp
  then show ?thesis
    unfolding hidden_state
    by (simp add: Tracks_tick_def Tracks_refresh_def new_source_def minVal_def Let_def)
qed

text \<open>
  C9 says that a refresh tick is a no-op while the page is not visible. In the history
  browser it is not: the interval calls the \<^verbatim>\<open>refresh\<close> of the first render. Mounted
  visible, with the first two requests answered and the page then hidden, the component
  has \<open>isVisible\<close> false and nothing pending; the next tick cancels the held source,
  creates another and issues a request.
\<close>

theorem Tracks_tick_while_hidden:
  "isVisible (fold Tracks_step
      [Settle (1, 180) (Resolved []), Startup, Settle (3, 180) (Resolved []),
       Props False ''QF2'' ''12H'' None]
      (Tracks_mount True ''QF2'' ''12H'' None)) = False
   \<and> pending (fold Tracks_step
      [Settle (1, 180) (Resolved []), Startup, Settle (3, 180) (Resolved []),
       Props False ''QF2'' ''12H'' None]
      (Tracks_mount True ''QF2'' ''12H'' None)) = []
   \<and> cancelled (fold Tracks_step
      [Settle (1, 180) (Resolved []), Startup, Settle (3, 180) (Resolved []),
       Props False ''QF2'' ''12H'' None]
      (Tracks_mount True ''QF2'' ''12H'' None)) = [0, 2]
   \<and> pending (fold Tracks_step
      [Settle (1, 180) (Resolved []), Startup, Settle (3, 180) (Resolved []),
       Props False ''QF2'' ''12H'' None, Tick]
      (Tracks_mount True ''QF2'' ''12H'' None)) = [(5, 180)]
   \<and> cancelled (fold Tracks_step
      [Settle (1, 180) (Resolved []), Startup, Settle (3, 180) (Resolved []),
       Props False ''QF2'' ''12H'' None, Tick]
      (Tracks_mount True ''QF2'' ''12H'' None)) = [0, 2, 4]"
  unfolding hidden_state hidden_tick by simp

section \<open>Overlapping requests\<close>

text \<open>
  The claim C8 as stated, for every poller, fails on the vessel tracker: its \<^verbatim>\<open>refresh\<close>
  calls no \<^verbatim>\<open>cancel\<close> (only \<^verbatim>\<open>componentWillUnmount\<close> does), so a second tick before the
  first request settles leaves two requests outstanding and none cancelled.
\<close>

theorem TrackLayer_overlap_counterexample:
  "outstanding (TrackLayer_refresh (TrackLayer_refresh
      \<lparr>isVisible = True, startupTimer = Some 1, refreshTimer = Some 2, requestRef = 0,
       tracks = [], created = 1, cancelled = [], pending = [],
       mounted = True, refreshErrors = 0\<rparr>)) = [(0, 180), (0, 180)]
   \<and> cancelled (TrackLayer_refresh (TrackLayer_refresh
      \<lparr>isVisible = True, startupTimer = Some 1, refreshTimer = Some 2, requestRef = 0,
       tracks = [], created = 1, cancelled = [], pending = [],
       mounted = True, refreshErrors = 0\<rparr>)) = []"
  by (simp add: TrackLayer_refresh_def outstanding_def TrackLayer_segmentMax_def)

text \<open>The chart pollers cancel nothing either: two refreshes are two requests.\<close>

lemma chart_pollers_overlap:
  "chart_pending (PressureChart_refresh (PressureChart_refresh \<lparr>chart_pending = 0\<rparr>)) = 2"
  "chart_pending (WindChart_refresh (WindChart_refresh \<lparr>chart_pending = 0\<rparr>)) = 2"
  by (simp_all add: PressureChart_refresh_def WindChart_refresh_def)

subsection \<open>The token sources of the history browser\<close>

lemma sources_created_refresh:
  "sources_created s \<Longrightarrow> sources_created (Tracks_refresh vis tf m s)"
  by (auto simp: sources_created_def Tracks_refresh_def new_source_def Let_def list_all_iff)

lemma Tracks_settle_sources:
  "requestRef (Tracks_settle rq oc s) = created s"
  "created (Tracks_settle rq oc s) = created s + 1"
  "cancelled (Tracks_settle rq oc s) = cancelled s"
  "pending (Tracks_settle rq oc s) = remove1 rq (pending s)"
  by (simp_all add: Tracks_settle_def Tracks_then_def Tracks_catch_def new_source_def Let_def
      split: outcome.splits sum.splits)

lemma sources_created_settle:
  assumes "sources_created s"
  shows "sources_created (Tracks_settle rq oc s)"
proof -
  have "set (remove1 rq (pending s)) \<subseteq> set (pending s)"
    by (rule set_remove1_subset)
  with assms show ?thesis
    unfolding sources_created_def Tracks_settle_sources list_all_iff
    by (auto intro: less_SucI)
qed

lemma sources_created_step:
  "sources_created s \<Longrightarrow> sources_created (Tracks_step ev s)"
proof (cases ev)
  case (Props vis og tf m)
  assume "sources_created s"
  then show ?thesis using Props
    by (auto simp: Tracks_props_def Tracks_refresh_def new_source_def sources_created_def
        Let_def list_all_iff)
next
  case Startup
  assume "sources_created s"
  then have "sources_created (Tracks_tick s)"
    unfolding Tracks_tick_def by (rule sources_created_refresh)
  then have "sources_created ((Tracks_tick s)\<lparr>refreshTimer := Some 2\<rparr>)"
    by (simp add: sources_created_def)
  then show ?thesis using Startup \<open>sources_created s\<close> by (simp add: Tracks_startup_def)
next
  case Tick
  assume "sources_created s"
  then show ?thesis using Tick by (simp add: Tracks_tick_def sources_created_refresh)
next
  case (Settle rq oc)
  assume "sources_created s"
  then show ?thesis using Settle by (simp add: sources_created_settle)
qed

lemma sources_created_mount: "sources_created (Tracks_mount vis og tf m)"
  unfolding Tracks_mount_def
  by (rule sources_created_refresh) (simp add: sources_created_def)

lemma sources_created_run:
  "sources_created s \<Longrightarrow> sources_created (fold Tracks_step evs s)"
  by (induction evs arbitrary: s) (simp_all add: sources_created_step)

text \<open>A request whose token has been cancelled changes no displayed track when it settles.\<close>

lemma Tracks_settle_cancelled:
  "fst rq \<in> set (cancelled s) \<Longrightarrow> tracks (Tracks_settle rq oc s) = tracks s"
  by (simp add: Tracks_settle_def Tracks_catch_def new_source_def Let_def)

text \<open>The answer to a request whose token has not been cancelled is displayed.\<close>

lemma Tracks_settle_live:
  "fst rq \<notin> set (cancelled s) \<Longrightarrow> tracks_forEach (snd rq) tr = Inr tr'
     \<Longrightarrow> tracks (Tracks_settle rq (Resolved tr) s) = tr'"
  by (simp add: Tracks_settle_def Tracks_then_def new_source_def Let_def)

text \<open>
  C8, amended. In the history browser, at any point of a run of the mounted component,
  a refresh of a visible render cancels the token source the poller holds and issues
  the new request under a newly created source. Every request pending under the held
  source is cancelled. When all outstanding requests were issued under the held source,
  the new request is the only one outstanding afterwards, none of the older pending
  requests changes the displayed tracks when it settles, whatever the answer, and the
  answer to the new request, once processed, is what is displayed.
\<close>

theorem Tracks_refresh_cancels_held:
  assumes "s = fold Tracks_step evs (Tracks_mount vis0 og0 tf0 m0)"
    and "\<forall>rq \<in> set (outstanding s). fst rq = requestRef s"
    and "s' = Tracks_refresh True tf m s"
    and "new = (requestRef s', 3 * minVal tf m * 60)"
  shows "requestRef s \<in> set (cancelled s')
       \<and> requestRef s' \<notin> set (cancelled s')
       \<and> (\<forall>rq \<in> set (pending s). fst rq = requestRef s \<longrightarrow> rq \<notin> set (outstanding s'))
       \<and> pending s' = pending s @ [new]
       \<and> outstanding s' = [new]
       \<and> (\<forall>rq \<in> set (pending s). \<forall>oc. tracks (Tracks_settle rq oc s') = tracks s)
       \<and> (\<forall>tr tr'. tracks_forEach (snd new) tr = Inr tr'
             \<longrightarrow> tracks (Tracks_settle new (Resolved tr) s') = tr')"
proof -
  have wf: "sources_created s"
    unfolding assms(1) by (rule sources_created_run) (rule sources_created_mount)
  then have fresh: "created s \<notin> set (cancelled s)" "created s \<noteq> requestRef s"
    by (auto simp: sources_created_def list_all_iff)
  have s': "s' = s\<lparr>cancelled := cancelled s @ [requestRef s], requestRef := created s,
                   created := created s + 1, pending := pending s @ [(created s, 3 * minVal tf m * 60)]\<rparr>"
    unfolding assms(3) by (simp add: Tracks_refresh_def new_source_def Let_def)
  have new: "new = (created s, 3 * minVal tf m * 60)"
    unfolding assms(4) s' by simp
  have old: "fst rq \<in> set (cancelled s')" if "rq \<in> set (pending s)" for rq
  proof (cases "fst rq \<in> set (cancelled s)")
    case True
    then show ?thesis by (simp add: s')
  next
    case False
    with that have "rq \<in> set (outstanding s)" by (simp add: outstanding_def)
    with assms(2) have "fst rq = requestRef s" by blast
    then show ?thesis by (simp add: s')
  qed
  have "filter (\<lambda>rq. fst rq \<notin> set (cancelled s')) (pending s) = []"
    using old by (auto simp: filter_empty_conv)
  then have out: "outstanding s' = [new]"
    using fresh by (simp add: outstanding_def s' new)
  have c1: "requestRef s \<in> set (cancelled s')" by (simp add: s')
  have c2: "requestRef s' \<notin> set (cancelled s')" using fresh by (simp add: s')
  have c3: "\<forall>rq \<in> set (pending s). fst rq = requestRef s \<longrightarrow> rq \<notin> set (outstanding s')"
    using old by (auto simp: outstanding_def)
  have c4: "pending s' = pending s @ [new]" by (simp add: s' new)
  have c6: "\<forall>rq \<in> set (pending s). \<forall>oc. tracks (Tracks_settle rq oc s') = tracks s"
  proof (intro ballI allI)
    fix rq oc assume "rq \<in> set (pending s)"
    then have "fst rq \<in> set (cancelled s')" by (rule old)
    then have "tracks (Tracks_settle rq oc s') = tracks s'" by (rule Tracks_settle_cancelled)
    then show "tracks (Tracks_settle rq oc s') = tracks s" by (simp add: s')
  qed
  have "fst new \<notin> set (cancelled s')" using c2 by (simp add: assms(4))
  then have c7: "\<forall>tr tr'. tracks_forEach (snd new) tr = Inr tr'
             \<longrightarrow> tracks (Tracks_settle new (Resolved tr) s') = tr'"
    by (simp add: Tracks_settle_live)
  show ?thesis by (intro conjI c1 c2 c3 c4 out c6 c7)
qed

theorem Tracks_refresh_cancels_held_witness:
  "outstanding (Tracks_mount True ''QF2'' ''30D'' None) = [(1, 360)]
   \<and> requestRef (Tracks_mount True ''QF2'' ''30D'' None) = 1
   \<and> cancelled (Tracks_refresh True ''7D'' None (Tracks_mount True ''QF2'' ''30D'' None)) = [0, 1]
   \<and> pending (Tracks_refresh True ''7D'' None (Tracks_mount True ''QF2'' ''30D'' None))
       = [(1, 360), (2, 180)]
   \<and> outstanding (Tracks_refresh True ''7D'' None (Tracks_mount True ''QF2'' ''30D'' None))
       = [(2, 180)]
   \<and> tracks (Tracks_settle (1, 360)
        (Resolved [\<lparr>mmsi = 7, name = ''a'', info_name = ''a'', info_color = ''red'',
                    track = [], pos = None, lines = []\<rparr>])
        (Tracks_refresh True ''7D'' None (Tracks_mount True ''QF2'' ''30D'' None))) = []
   \<and> tracks (Tracks_settle (2, 180)
        (Resolved [\<lparr>mmsi = 7, name = ''a'', info_name = ''a'', info_color = ''red'',
                    track = [], pos = None, lines = []\<rparr>])
        (Tracks_refresh True ''7D'' None (Tracks_mount True ''QF2'' ''30D'' None)))
       = [\<lparr>mmsi = 7, name = ''a'', info_name = ''a'', info_color = ''red'',
            track = [], pos = None, lines = []\<rparr>]"
proof -
  let ?s = "Tracks_mount True ''QF2'' ''30D'' None"
  let ?s' = "Tracks_refresh True ''7D'' None ?s"
  let ?v = "\<lparr>mmsi = 7, name = ''a'', info_name = ''a'', info_color = ''red'',
             track = [], pos = None, lines = []\<rparr>"
  have h1: "?s = fold Tracks_step [] ?s" by simp
  have o: "outstanding ?s = [(1, 360)]" and r: "requestRef ?s = 1"
    and p: "pending ?s = [(1, 360)]" and t: "tracks ?s = []"
    by (simp_all add: Tracks_mount_def Tracks_refresh_def new_source_def outstanding_def
        minVal_def Let_def)
  have h2: "\<forall>rq \<in> set (outstanding ?s). fst rq = requestRef ?s"
    by (simp add: o r)
  have r': "requestRef ?s' = 2"
    by (simp add: Tracks_mount_def Tracks_refresh_def new_source_def Let_def)
  have c: "cancelled ?s' = [0, 1]"
    by (simp add: Tracks_mount_def Tracks_refresh_def new_source_def Let_def)
  have m: "3 * minVal ''7D'' None * 60 = 180" by (simp add: minVal_def)
  have pv: "tracks_forEach 180 [?v] = Inr [?v]"
    by (simp add: process_vessel_def sort_track_def segmenter_def push_segment_def)
  note inst = Tracks_refresh_cancels_held [OF h1 h2 refl refl, of "''7D''" None]
  from inst have "pending ?s' = pending ?s @ [(requestRef ?s', 3 * minVal ''7D'' None * 60)]"
    by blast
  then have a: "pending ?s' = [(1, 360), (2, 180)]" by (simp add: p r' m)
  from inst have "outstanding ?s' = [(requestRef ?s', 3 * minVal ''7D'' None * 60)]"
    by blast
  then have b: "outstanding ?s' = [(2, 180)]" by (simp add: r' m)
  from inst have "\<forall>rq \<in> set (pending ?s). \<forall>oc. tracks (Tracks_settle rq oc ?s') = tracks ?s"
    by blast
  then have d: "tracks (Tracks_settle (1, 360) (Resolved [?v]) ?s') = []"
    by (simp add: p t)
  from inst have "\<forall>tr tr'. tracks_forEach (snd (requestRef ?s', 3 * minVal ''7D'' None * 60)) tr = Inr tr'
      \<longrightarrow> tracks (Tracks_settle (requestRef ?s', 3 * minVal ''7D'' None * 60) (Resolved tr) ?s') = tr'"
    by blast
  then have e: "tracks (Tracks_settle (2, 180) (Resolved [?v]) ?s') = [?v]"
    using pv by (simp add: r' m)
  from o r c a b d e show ?thesis by blast
qed

text \<open>
  The condition on the outstanding requests is needed: \<^verbatim>\<open>.finally\<close> replaces the held
  source also when the settled request is one that a later refresh has already
  cancelled, and the request issued by that later refresh is then out of reach of the
  next \<^verbatim>\<open>cancel\<close>. Mounting, a second refresh, the rejection of the first request and a
  third refresh leave two requests outstanding.
\<close>

lemma Tracks_finally_orphans_request:
  "outstanding (fold Tracks_step
      [Props True ''QF2'' ''24H'' None, Settle (1, 180) (Resolved []),
       Props True ''QF2'' ''7D'' None]
      (Tracks_mount True ''QF2'' ''12H'' None)) = [(2, 180), (4, 180)]"
  unfolding mount_visible
  by (simp add: Tracks_refresh_def Tracks_settle_def Tracks_catch_def
      Tracks_props_def new_source_def outstanding_def minVal_def Let_def)

section \<open>Empty tracks\<close>

lemma process_vessel_pos:
  "process_vessel m v = Inr v' \<Longrightarrow> track v = [] \<Longrightarrow> pos v' = None"
  by (auto simp: process_vessel_def sort_track_def Let_def split: sum.splits)

lemma render_Inl: "render_vessel v = Inl e \<Longrightarrow> render (v # vs) = Inl TypeError"
  by (cases e) simp

lemma render_missing_pos:
  "v \<in> set vs \<Longrightarrow> pos v = None \<Longrightarrow> render vs = Inl TypeError"
proof (induction vs)
  case Nil
  then show ?case by simp
next
  case (Cons u vs)
  show ?case
  proof (cases "render_vessel u")
    case (Inl e)
    then show ?thesis by (cases e) simp
  next
    case (Inr g)
    with Cons.prems have "v \<in> set vs" by (auto simp: render_vessel_def)
    with Cons have "render vs = Inl TypeError" by simp
    with Inr show ?thesis by simp
  qed
qed

lemma tracks_forEach_member:
  "tracks_forEach m vs = Inr vs' \<Longrightarrow> v \<in> set vs
     \<Longrightarrow> \<exists>v' \<in> set vs'. process_vessel m v = Inr v'"
proof (induction vs arbitrary: vs')
  case Nil
  then show ?case by simp
next
  case (Cons u vs)
  from Cons.prems(1) obtain u' us' where u: "process_vessel m u = Inr u'"
    and us: "tracks_forEach m vs = Inr us'" and vs': "vs' = u' # us'"
    by (auto split: sum.splits)
  show ?case
  proof (cases "v = u")
    case True
    with u vs' show ?thesis by simp
  next
    case False
    with Cons.prems(2) have "v \<in> set vs" by simp
    from Cons.IH[OF us this] vs' show ?thesis by auto
  qed
qed

text \<open>
  C10. A vessel with an empty track passes the response processing, which leaves its
  head position \<open>pos\<close> undefined, and rendering its head marker then throws; so does the
  rendering of any processed response that contained such a vessel.
\<close>

theorem empty_track_breaks_render:
  assumes "track v = []"
  shows "process_vessel segmentMax v = Inr (v\<lparr>track := [], pos := None, lines := []\<rparr>)
       \<and> render_vessel (v\<lparr>track := [], pos := None, lines := []\<rparr>) = Inl TypeError
       \<and> (v \<in> set vs \<and> tracks_forEach segmentMax vs = Inr vs' \<longrightarrow> render vs' = Inl TypeError)"
proof (intro conjI impI)
  from assms show "process_vessel segmentMax v = Inr (v\<lparr>track := [], pos := None, lines := []\<rparr>)"
    by (simp add: process_vessel_def sort_track_def segmenter_def push_segment_def)
  show "render_vessel (v\<lparr>track := [], pos := None, lines := []\<rparr>) = Inl TypeError"
    by (simp add: render_vessel_def)
next
  assume a: "v \<in> set vs \<and> tracks_forEach segmentMax vs = Inr vs'"
  then obtain v' where "v' \<in> set vs'" and "process_vessel segmentMax v = Inr v'"
    using tracks_forEach_member by blast
  with assms show "render vs' = Inl TypeError"
    using process_vessel_pos render_missing_pos by blast
qed

theorem empty_track_breaks_render_witness:
  "track \<lparr>mmsi = 7, name = ''a'', info_name = ''a'', info_color = ''red'',
          track = [], pos = None, lines = []\<rparr> = []
   \<and> tracks_forEach 180
       [\<lparr>mmsi = 7, name = ''a'', info_name = ''a'', info_color = ''red'',
         track = [], pos = None, lines = []\<rparr>]
     = Inr [\<lparr>mmsi = 7, name = ''a'', info_name = ''a'', info_color = ''red'',
             track = [], pos = None, lines = []\<rparr>]
   \<and> render [\<lparr>mmsi = 7, name = ''a'', info_name = ''a'', info_color = ''red'',
             track = [], pos = None, lines = []\<rparr>] = Inl TypeError"
proof -
  let ?v = "\<lparr>mmsi = 7, name = ''a'', info_name = ''a'', info_color = ''red'',
          track = [], pos = None, lines = []\<rparr>"
  have h: "track ?v = []" by simp
  have p: "tracks_forEach 180 [?v] = Inr [?v]"
    by (simp add: process_vessel_def sort_track_def segmenter_def push_segment_def)
  from empty_track_breaks_render [OF h, of 180 "[?v]" "[?v]"] h p
  show ?thesis by simp
qed

end
